theory Spec2Isabelle
  imports Complex_Main "HOL-Library.Multiset" "HOL-Library.List_Lexorder"
begin

section \<open>Failures\<close>

text \<open>
  Everything the C++ does beyond returning a value is a value of \<open>fault\<close>:
  \<^item> \<open>InvalidArgument msg\<close>: \<^verbatim>\<open>throw std::invalid_argument(msg)\<close>;
  \<^item> \<open>BadOptionalAccess\<close>: \<^verbatim>\<open>optional::value()\<close> on an empty optional;
  \<^item> \<open>DivisionByZero\<close>: \<^verbatim>\<open>a / b\<close> with \<open>b = 0\<close> in the exact element type
    (HOL's \<open>a / 0 = 0\<close> is not what any element type computes);
  \<^item> \<open>Undefined\<close>: undefined behaviour, that is \<^verbatim>\<open>vector::operator[]\<close> out of range
    and \<^verbatim>\<open>*opt\<close> on an empty optional;
  \<^item> \<open>Terminate\<close>: an exception that leaves a \<^verbatim>\<open>noexcept\<close> function
    (\<^verbatim>\<open>std::terminate\<close>).
  A C++ \<^verbatim>\<open>std::optional<T>\<close> is an \<open>'a option\<close> inside the result: \<open>Inr None\<close> is
  the absent result, which is a normal return.
\<close>

datatype fault =
    InvalidArgument string
  | BadOptionalAccess
  | DivisionByZero
  | Undefined
  | Terminate

type_synonym 'a result = "fault + 'a"

definition rbind :: "'a result \<Rightarrow> ('a \<Rightarrow> 'b result) \<Rightarrow> 'b result" where
  "rbind m f = (case m of Inl e \<Rightarrow> Inl e | Inr x \<Rightarrow> f x)"

text \<open>\<^verbatim>\<open>opt.value()\<close> and \<^verbatim>\<open>*opt\<close>.\<close>

definition opt_value :: "'a option \<Rightarrow> 'a result" where
  "opt_value opt = (case opt of None \<Rightarrow> Inl BadOptionalAccess | Some v \<Rightarrow> Inr v)"

definition opt_deref :: "'a option \<Rightarrow> 'a result" where
  "opt_deref opt = (case opt of None \<Rightarrow> Inl Undefined | Some v \<Rightarrow> Inr v)"

text \<open>The body of a \<^verbatim>\<open>noexcept\<close> function: a thrown exception ends the process.\<close>

definition noexcept :: "'a result \<Rightarrow> 'a result" where
  "noexcept r = (case r of
      Inl (InvalidArgument msg) \<Rightarrow> Inl Terminate
    | Inl BadOptionalAccess \<Rightarrow> Inl Terminate
    | _ \<Rightarrow> r)"

text \<open>Division of the element type, checked.\<close>

definition divide_T :: "'a::field \<Rightarrow> 'a \<Rightarrow> 'a result" where
  "divide_T a b = (if b = 0 then Inl DivisionByZero else Inr (a / b))"

text \<open>
  A counted \<^verbatim>\<open>for\<close> loop whose body may fail: the body runs for each index of the
  list in turn, on the state the previous round left, and the first fault ends it.
\<close>

primrec for_each :: "nat list \<Rightarrow> (nat \<Rightarrow> 's \<Rightarrow> 's result) \<Rightarrow> 's \<Rightarrow> 's result" where
  "for_each [] body s = Inr s"
| "for_each (i # rest) body s = rbind (body i s) (for_each rest body)"

section \<open>\<^verbatim>\<open>size_t\<close>\<close>

text \<open>
  Sizes and indices are \<^verbatim>\<open>size_t\<close>, 64 bits wide, modelled as \<open>nat\<close> below \<open>2 ^ 64\<close>.
  The two places where the source can leave that range are written out: the
  decrement \<^verbatim>\<open>--row\<close> of an index that may be \<open>0\<close>, and the flat index
  \<^verbatim>\<open>column * M + row\<close> computed from it.
\<close>

definition SIZE_RANGE :: nat where
  "SIZE_RANGE = 2 ^ 64"

definition size_dec :: "nat \<Rightarrow> nat" where
  "size_dec n = (if n = 0 then SIZE_RANGE - 1 else n - 1)"

definition size_mul_add :: "nat \<Rightarrow> nat \<Rightarrow> nat \<Rightarrow> nat" where
  "size_mul_add a b c = (a * b + c) mod SIZE_RANGE"

section \<open>sequence.hpp\<close>

text \<open>\<^verbatim>\<open>operator+ (vector, vector)\<close>: absent when the sizes differ.\<close>

definition seq_add :: "'a::plus list \<Rightarrow> 'a list \<Rightarrow> 'a list option" where
  "seq_add s1 s2 =
     (if length s1 \<noteq> length s2 then None else Some (map2 (+) s1 s2))"

text \<open>\<^verbatim>\<open>operator* (vector, k)\<close>: every element times \<open>k\<close>.\<close>

definition seq_times :: "'a::times list \<Rightarrow> 'a \<Rightarrow> 'a list" where
  "seq_times s1 k = map (\<lambda>i. i * k) s1"

text \<open>\<^verbatim>\<open>dot\<close>: absent when the sizes differ; the sum starts from \<^verbatim>\<open>T{}\<close>.\<close>

definition dot :: "'a::semiring_0 list \<Rightarrow> 'a list \<Rightarrow> 'a option" where
  "dot left right =
     (if length left \<noteq> length right then None
      else Some (foldl (\<lambda>result (l, r). result + l * r) 0 (zip left right)))"

section \<open>numerical_table.hpp\<close>

record 'a numerical_table =
  nt_M :: nat
  nt_N :: nat
  nt_data :: "'a list"

text \<open>\<^verbatim>\<open>vector::resize(n)\<close>: truncates, or pads with \<^verbatim>\<open>T{}\<close>.\<close>

definition resize :: "nat \<Rightarrow> 'a::zero list \<Rightarrow> 'a list" where
  "resize n xs = take n xs @ replicate (n - length xs) 0"

text \<open>
  The constructor \<^verbatim>\<open>numerical_table(M, N, data)\<close> (both overloads have the same
  body); \<^verbatim>\<open>__FUNCTION__\<close> is the constructor's name.
\<close>

definition numerical_table_ctor :: "nat \<Rightarrow> nat \<Rightarrow> 'a::zero list \<Rightarrow> 'a numerical_table result" where
  "numerical_table_ctor M N data =
     (if M = 0 then Inl (InvalidArgument ''numerical_table M == 0'')
      else if N = 0 then Inl (InvalidArgument ''numerical_table N == 0'')
      else Inr \<lparr>nt_M = M, nt_N = N, nt_data = resize (size_mul_add M N 0) data\<rparr>)"

abbreviation get_M :: "'a numerical_table \<Rightarrow> nat" where
  "get_M t \<equiv> nt_M t"

abbreviation get_N :: "'a numerical_table \<Rightarrow> nat" where
  "get_N t \<equiv> nt_N t"

definition square_matrix :: "'a numerical_table \<Rightarrow> bool" where
  "square_matrix t = (get_M t = get_N t)"

text \<open>
  \<^verbatim>\<open>get_element\<close>: the only check is against the upper bounds; then both indices
  are decremented and \<^verbatim>\<open>_data[column * get_M() + row]\<close> is read.
\<close>

definition get_element :: "'a numerical_table \<Rightarrow> nat \<Rightarrow> nat \<Rightarrow> 'a option result" where
  "get_element t row column =
     (if row > get_M t \<or> column > get_N t then Inr None
      else let row' = size_dec row;
               column' = size_dec column;
               idx = size_mul_add column' (get_M t) row'
           in if idx < length (nt_data t) then Inr (Some (nt_data t ! idx))
              else Inl Undefined)"

definition set_element :: "'a numerical_table \<Rightarrow> nat \<Rightarrow> nat \<Rightarrow> 'a \<Rightarrow> 'a numerical_table result" where
  "set_element t i j v =
     (if i > get_M t \<or> j > get_N t then Inr t
      else let i' = size_dec i;
               j' = size_dec j;
               idx = size_mul_add j' (nt_M t) i'
           in if idx < length (nt_data t) then Inr (t\<lparr>nt_data := (nt_data t)[idx := v]\<rparr>)
              else Inl Undefined)"

text \<open>
  \<^verbatim>\<open>get_row\<close>: a line of \<^verbatim>\<open>get_N()\<close> zeros, filled by
  \<^verbatim>\<open>line[i - 1] = *get_element(row, i)\<close> for \<open>i = 1 .. get_N()\<close>.
\<close>

definition get_row :: "'a::zero numerical_table \<Rightarrow> nat \<Rightarrow> 'a list option result" where
  "get_row t row =
     (if row > get_M t then Inr None
      else rbind
        (for_each [1..<get_N t + 1]
           (\<lambda>i line. rbind (rbind (get_element t row i) opt_deref)
                           (\<lambda>v. Inr (line[i - 1 := v])))
           (replicate (get_N t) 0))
        (\<lambda>line. Inr (Some line)))"

definition set_row :: "'a numerical_table \<Rightarrow> nat \<Rightarrow> 'a list \<Rightarrow> 'a numerical_table result" where
  "set_row t row values =
     (if row > get_M t then Inr t
      else if length values \<noteq> get_N t then Inr t
      else for_each [1..<get_N t + 1] (\<lambda>i t'. set_element t' row i (values ! (i - 1))) t)"

text \<open>\<^verbatim>\<open>get_column\<close> reads with \<^verbatim>\<open>get_element(i, column).value()\<close> and is \<^verbatim>\<open>noexcept\<close>.\<close>

definition get_column :: "'a::zero numerical_table \<Rightarrow> nat \<Rightarrow> 'a list option result" where
  "get_column t column =
     (if column > get_N t then Inr None
      else noexcept (rbind
        (for_each [1..<nt_M t + 1]
           (\<lambda>i line. rbind (rbind (get_element t i column) opt_value)
                           (\<lambda>v. Inr (line[i - 1 := v])))
           (replicate (get_M t) 0))
        (\<lambda>line. Inr (Some line))))"

text \<open>\<^verbatim>\<open>set_column\<close>: the index is compared with \<^verbatim>\<open>get_M()\<close>.\<close>

definition set_column :: "'a numerical_table \<Rightarrow> nat \<Rightarrow> 'a list \<Rightarrow> 'a numerical_table result" where
  "set_column t column values =
     (if column > get_M t then Inr t
      else if length values \<noteq> get_M t then Inr t
      else for_each [1..<get_M t + 1] (\<lambda>i t'. set_element t' i column (values ! (i - 1))) t)"

text \<open>
  \<^verbatim>\<open>swap_row\<close>: \<^verbatim>\<open>line = get_row(i); set_row(i, *get_row(j)); set_row(j, *line)\<close>.
\<close>

definition swap_row :: "'a::zero numerical_table \<Rightarrow> nat \<Rightarrow> nat \<Rightarrow> 'a numerical_table result" where
  "swap_row t i j =
     (if i > get_M t \<or> j > get_M t then Inr t
      else rbind (get_row t i) (\<lambda>line.
           rbind (rbind (get_row t j) opt_deref) (\<lambda>row_j.
           rbind (set_row t i row_j) (\<lambda>t'.
           rbind (opt_deref line) (\<lambda>row_i.
           set_row t' j row_i)))))"

text \<open>
  The data-model invariant of a table: both dimensions at least 1 and the backing
  store holds exactly \<open>M * N\<close> elements (which \<^verbatim>\<open>size_t\<close> can count).
\<close>

definition table_ok :: "'a numerical_table \<Rightarrow> bool" where
  "table_ok t = (1 \<le> nt_M t \<and> 1 \<le> nt_N t \<and> length (nt_data t) = nt_M t * nt_N t
                 \<and> nt_M t * nt_N t < SIZE_RANGE)"

section \<open>det.hpp\<close>

text \<open>
  \<^verbatim>\<open>det\<close> has one member, the table \<^verbatim>\<open>_nt\<close>, and forwards \<^verbatim>\<open>get_element\<close>,
  \<^verbatim>\<open>set_element\<close>, \<^verbatim>\<open>get_row\<close>, \<^verbatim>\<open>set_row\<close>, \<^verbatim>\<open>get_column\<close>, \<^verbatim>\<open>set_column\<close> and
  \<^verbatim>\<open>swap_row\<close> to it: a determinant is modelled as that table, and
  \<^verbatim>\<open>det::get_N()\<close>, which returns \<^verbatim>\<open>_nt.get_M()\<close>, as \<open>det_get_N\<close>.
\<close>

type_synonym 'a det = "'a numerical_table"

definition det_ctor :: "nat \<Rightarrow> 'a::zero list \<Rightarrow> 'a det result" where
  "det_ctor N data = numerical_table_ctor N N data"

abbreviation det_get_N :: "'a det \<Rightarrow> nat" where
  "det_get_N d \<equiv> nt_M d"

text \<open>
  \<^verbatim>\<open>inverse_number()(first, index)\<close>: walks from \<^verbatim>\<open>first\<close> up to \<^verbatim>\<open>index\<close> and counts
  the elements \<^verbatim>\<open>*first\<close> with \<^verbatim>\<open>*index < *first\<close>. The range is the list \<open>xs\<close> and
  \<open>index\<close> a position in it.
\<close>

definition inverse_number :: "nat list \<Rightarrow> nat \<Rightarrow> nat" where
  "inverse_number xs index =
     foldl (\<lambda>count f. if xs ! index < f then count + 1 else count) 0 (take index xs)"

text \<open>
  \<^verbatim>\<open>elements_inverse_number()(first, last, cmp)\<close>: 0 on the empty range, else the sum
  of \<open>inverse_number\<close> over the positions after the first.
\<close>

definition elements_inverse_number :: "nat list \<Rightarrow> nat" where
  "elements_inverse_number xs =
     (if xs = [] then 0
      else foldl (\<lambda>count tfirst. count + inverse_number xs tfirst) 0 [1..<length xs])"

text \<open>
  \<^verbatim>\<open>std::next_permutation\<close> (C++ standard library). Scanning from the right end,
  the first position \<open>x\<close> that is less than its right neighbour is the pivot; the
  suffix to its right is non-increasing. The pivot is swapped with the rightmost
  element of the suffix greater than it and the suffix is reversed; the result is
  \<open>True\<close>. Without a pivot the whole range is reversed and the result is \<open>False\<close>.
  In the recursion, \<open>(ys, True)\<close> from the tail means the pivot lies in the tail;
  \<open>(ys, False)\<close> means the tail is non-increasing and \<open>ys\<close> is its reverse, in
  which the rightmost element of the tail greater than \<open>x\<close> is the first one
  greater than \<open>x\<close>. That this meets the contract of the standard, for every
  range, is \<open>next_permutation_contract\<close> below.
\<close>

fun next_permutation :: "nat list \<Rightarrow> nat list \<times> bool" where
  "next_permutation [] = ([], False)"
| "next_permutation (x # xs) =
     (case next_permutation xs of
        (ys, True) \<Rightarrow> (x # ys, True)
      | (ys, False) \<Rightarrow>
          (case dropWhile (\<lambda>y. \<not> x < y) ys of
             [] \<Rightarrow> (ys @ [x], False)
           | g # gs \<Rightarrow> (g # takeWhile (\<lambda>y. \<not> x < y) ys @ x # gs, True)))"

text \<open>
  \<^verbatim>\<open>general_calculate\<close> is declared \<^verbatim>\<open>double general_calculate() const\<close>: whatever the
  element type \<open>T\<close> is, \<^verbatim>\<open>result\<close> and \<^verbatim>\<open>tresult\<close> are \<^verbatim>\<open>double\<close>, and every element
  is converted to \<^verbatim>\<open>double\<close> when it is multiplied in. In the model \<open>'t\<close> is the
  element type, \<open>'d\<close> the type \<^verbatim>\<open>double\<close> and \<open>to_double\<close> the conversion. Of \<open>'d\<close>
  only the operations exist: \<open>0\<close>, \<open>1\<close>, \<open>- 1\<close>, \<open>+\<close> and \<open>*\<close> are the machine's, with
  its rounding, and nothing is assumed of them (no associativity, no
  \<open>0 * x = 0\<close>). The test \<^verbatim>\<open>get_element(...) == 0\<close> is made on the element, before the
  conversion; a floating-point type's two zeros compare equal and are one value
  of \<open>'t\<close>.
\<close>

text \<open>
  One term of \<^verbatim>\<open>general_calculate\<close>: the inner \<^verbatim>\<open>for\<close> loop over \<open>index\<close>, which
  leaves with \<open>tresult = 0\<close> at the first selected element equal to 0 and else
  multiplies \<open>tresult\<close> by the element.
\<close>

fun gc_term_loop ::
  "('t::zero \<Rightarrow> 'd::{zero,times}) \<Rightarrow> 't det \<Rightarrow> nat list \<Rightarrow> nat list \<Rightarrow> 'd \<Rightarrow> 'd result" where
  "gc_term_loop to_double d indices [] tresult = Inr tresult"
| "gc_term_loop to_double d indices (index # rest) tresult =
     (if index - 1 < length indices then
        rbind (get_element d index (indices ! (index - 1))) (\<lambda>e.
          if e = Some 0 then Inr 0
          else rbind (opt_deref e)
                 (\<lambda>v. gc_term_loop to_double d indices rest (tresult * to_double v)))
      else Inl Undefined)"

definition gc_term ::
  "('t::zero \<Rightarrow> 'd::{zero,one,uminus,times}) \<Rightarrow> 't det \<Rightarrow> nat list \<Rightarrow> 'd result" where
  "gc_term to_double d indices =
     (let count = elements_inverse_number indices;
          tresult = (if count mod 2 = 0 then 1 else - 1)
      in gc_term_loop to_double d indices [1..<det_get_N d + 1] tresult)"

lemma next_permutation_mset: "next_permutation xs = (ys, b) \<Longrightarrow> mset ys = mset xs"
proof (induction xs arbitrary: ys b)
  case Nil
  then show ?case by simp
next
  case (Cons x xs)
  obtain zs c where rec: "next_permutation xs = (zs, c)"
    by (cases "next_permutation xs")
  from Cons.IH [OF rec] have zs: "mset zs = mset xs" .
  have split: "mset (takeWhile (\<lambda>y. \<not> x < y) zs) + mset (dropWhile (\<lambda>y. \<not> x < y) zs) = mset zs"
    by (metis mset_append takeWhile_dropWhile_id)
  show ?case
  proof (cases c)
    case True
    with Cons.prems rec zs show ?thesis by auto
  next
    case False
    show ?thesis
    proof (cases "dropWhile (\<lambda>y. \<not> x < y) zs")
      case Nil
      with Cons.prems rec False zs show ?thesis by auto
    next
      case (Cons g gs)
      with Cons.prems rec False have "ys = g # takeWhile (\<lambda>y. \<not> x < y) zs @ x # gs"
        by auto
      with split Cons zs show ?thesis by (auto simp: ac_simps)
    qed
  qed
qed

lemma next_permutation_greater: "next_permutation xs = (ys, True) \<Longrightarrow> xs < ys"
proof (induction xs arbitrary: ys)
  case Nil
  then show ?case by simp
next
  case (Cons x xs)
  obtain zs c where rec: "next_permutation xs = (zs, c)"
    by (cases "next_permutation xs")
  show ?case
  proof (cases c)
    case True
    with Cons.prems rec Cons.IH [of zs] show ?thesis by auto
  next
    case False
    show ?thesis
    proof (cases "dropWhile (\<lambda>y. \<not> x < y) zs")
      case Nil
      with Cons.prems rec False show ?thesis by auto
    next
      case (Cons g gs)
      from hd_dropWhile [of "\<lambda>y. \<not> x < y" zs] Cons have "x < g" by simp
      moreover from Cons.prems rec False Cons have "hd ys = g" "ys \<noteq> []" by auto
      ultimately show ?thesis by (cases ys) auto
    qed
  qed
qed

text \<open>
  The \<^verbatim>\<open>do ... while (next_permutation(...))\<close> loop of \<^verbatim>\<open>general_calculate\<close>: the
  term of the current permutation is added, then the permutation is advanced.
\<close>

function gc_loop ::
  "('t::zero \<Rightarrow> 'd::{zero,one,uminus,plus,times}) \<Rightarrow> 't det \<Rightarrow> nat list \<Rightarrow> 'd \<Rightarrow> 'd result" where
  "gc_loop to_double d indices result =
     (case gc_term to_double d indices of
        Inl e \<Rightarrow> Inl e
      | Inr tresult \<Rightarrow>
          (case next_permutation indices of
             (ys, has_next) \<Rightarrow>
               if has_next then gc_loop to_double d ys (result + tresult)
               else Inr (result + tresult)))"
  by pat_completeness auto
termination
proof (relation "measure (\<lambda>(to_double, d, indices, result).
         card {zs. mset zs = mset indices \<and> indices < zs})")
  show "wf (measure (\<lambda>(to_double :: 't::zero \<Rightarrow> 'd::{zero,one,uminus,plus,times},
                         d :: 't det, indices, result :: 'd).
          card {zs. mset zs = mset indices \<and> indices < zs}))"
    by simp
next
  fix to_double :: "'t::zero \<Rightarrow> 'd::{zero,one,uminus,plus,times}"
    and d :: "'t det" and indices :: "nat list"
    and result tresult :: 'd and ys and has_next :: bool
  assume "gc_term to_double d indices = Inr tresult"
    and "(ys, has_next) = next_permutation indices" and has_next
  then have np: "next_permutation indices = (ys, True)" by simp
  have gt: "indices < ys" and ms: "mset ys = mset indices"
    using next_permutation_greater [OF np] next_permutation_mset [OF np] by auto
  have fin: "finite {zs. mset zs = mset indices \<and> indices < zs}"
    by (rule finite_subset [of _ "{zs. mset zs = mset indices}"]) (auto simp: mset_eq_finite)
  have "{zs. mset zs = mset ys \<and> ys < zs} \<subset> {zs. mset zs = mset indices \<and> indices < zs}"
    using gt ms by auto
  from psubset_card_mono [OF fin this]
  show "((to_double, d, ys, result + tresult), (to_double, d, indices, result))
        \<in> measure (\<lambda>(to_double, d, indices, result).
             card {zs. mset zs = mset indices \<and> indices < zs})"
    by simp
qed

declare gc_loop.simps [simp del]

text \<open>
  \<^verbatim>\<open>general_calculate\<close>: the single element, converted, for order 1; else
  \<^verbatim>\<open>indices\<close> starts as \<open>1, ..., N\<close> (\<^verbatim>\<open>iota\<close>), \<^verbatim>\<open>result\<close> as 0, and the loop runs.
\<close>

definition general_calculate ::
  "('t::zero \<Rightarrow> 'd::{zero,one,uminus,plus,times}) \<Rightarrow> 't det \<Rightarrow> 'd result" where
  "general_calculate to_double d =
     (if det_get_N d = 1
      then rbind (rbind (get_element d 1 1) opt_deref) (\<lambda>v. Inr (to_double v))
      else gc_loop to_double d [1..<det_get_N d + 1] 0)"

text \<open>
  \<^verbatim>\<open>m_i_j\<close>, \<^verbatim>\<open>noexcept\<close>: the minor. Each row but \<open>i\<close> loses its element \<open>j\<close>
  (\<^verbatim>\<open>line.erase(line.begin() + (j - 1))\<close>) and is stored in the result.
\<close>

definition m_i_j :: "'a::zero det \<Rightarrow> nat \<Rightarrow> nat \<Rightarrow> 'a det option result" where
  "m_i_j d i j =
     (if i < 1 \<or> i > det_get_N d \<or> j < 1 \<or> j > det_get_N d \<or> det_get_N d = 1 then Inr None
      else noexcept (
           rbind (det_ctor (det_get_N d - 1) [0]) (\<lambda>result0.
           rbind (for_each [1..<det_get_N d + 1]
                    (\<lambda>index result.
                       if index = i then Inr result
                       else rbind (rbind (get_row d index) opt_deref) (\<lambda>line0.
                            let line = take (j - 1) line0 @ drop j line0
                            in if index < i then set_row result index line
                               else set_row result (index - 1) line))
                    result0)
                 (\<lambda>result. Inr (Some result)))))"

text \<open>
  \<^verbatim>\<open>algebraic_complement_minor\<close>: the minor, with every row multiplied by
  \<^verbatim>\<open>T(-1)\<close> when \<open>i + j\<close> is odd.
\<close>

definition algebraic_complement_minor :: "'a::comm_ring_1 det \<Rightarrow> nat \<Rightarrow> nat \<Rightarrow> 'a det option result" where
  "algebraic_complement_minor d i j =
     rbind (rbind (m_i_j d i j) opt_value) (\<lambda>result0.
     rbind (if (i + j) mod 2 = 1
            then for_each [1..<det_get_N result0 + 1]
                   (\<lambda>row result. rbind (rbind (get_row result row) opt_deref)
                                        (\<lambda>line. set_row result row (seq_times line (- 1))))
                   result0
            else Inr result0)
           (\<lambda>result. Inr (Some result)))"

text \<open>
  \<^verbatim>\<open>elimination\<close>, the search for a row to swap with: \<open>r2\<close> runs over the list, the
  element tested is \<^verbatim>\<open>get_element(r1, r2)\<close>, and the first hit swaps rows \<open>r1\<close> and
  \<open>r2\<close> and leaves the loop.
\<close>

fun elimination_search :: "'a::field det \<Rightarrow> nat \<Rightarrow> nat list \<Rightarrow> 'a det result" where
  "elimination_search d r1 [] = Inr d"
| "elimination_search d r1 (r2 # rest) =
     rbind (rbind (get_element d r1 r2) opt_value) (\<lambda>e.
       if e \<noteq> 0 then swap_row d r1 r2
       else elimination_search d r1 rest)"

text \<open>
  The row replacement for one \<open>r2\<close>:
  \<^verbatim>\<open>set_row(r2, (get_row(r1) * (-get_element(r2, r1) / get_element(r1, r1)) + get_row(r2)).value())\<close>.
\<close>

definition elimination_row :: "nat \<Rightarrow> nat \<Rightarrow> 'a::field det \<Rightarrow> 'a det result" where
  "elimination_row r1 r2 d =
     rbind (rbind (get_row d r1) opt_value) (\<lambda>row1.
     rbind (rbind (get_element d r2 r1) opt_value) (\<lambda>e21.
     rbind (rbind (get_element d r1 r1) opt_value) (\<lambda>e11.
     rbind (divide_T (- e21) e11) (\<lambda>k.
     rbind (rbind (get_row d r2) opt_value) (\<lambda>row2.
     rbind (opt_value (seq_add (seq_times row1 k) row2)) (\<lambda>line.
     set_row d r2 line))))))"

text \<open>
  The body of the outer loop of \<^verbatim>\<open>elimination\<close> for one \<open>r1\<close>: with a zero pivot
  the search runs, and a pivot that is still zero afterwards skips the row
  replacements (\<^verbatim>\<open>continue\<close>).
\<close>

definition elimination_rows :: "nat \<Rightarrow> 'a::field det \<Rightarrow> 'a det result" where
  "elimination_rows r1 d = for_each [r1 + 1..<det_get_N d + 1] (elimination_row r1) d"

definition elimination_step :: "nat \<Rightarrow> 'a::field det \<Rightarrow> 'a det result" where
  "elimination_step r1 d =
     rbind (rbind (get_element d r1 r1) opt_value) (\<lambda>pivot.
       if pivot = 0 then
         rbind (elimination_search d r1 [r1 + 1..<det_get_N d + 1]) (\<lambda>d'.
         rbind (rbind (get_element d' r1 r1) opt_value) (\<lambda>pivot'.
           if pivot' = 0 then Inr d' else elimination_rows r1 d'))
       else elimination_rows r1 d)"

definition elimination :: "'a::field det \<Rightarrow> 'a det result" where
  "elimination d =
     noexcept (if det_get_N d = 1 then Inr d
               else for_each [1..<det_get_N d] elimination_step d)"

text \<open>
  \<^verbatim>\<open>elimination_calculate\<close>: on a copy, \<^verbatim>\<open>elimination\<close> and then the product of the
  diagonal, starting from 1.
\<close>

definition elimination_calculate :: "'a::field det \<Rightarrow> 'a result" where
  "elimination_calculate d =
     noexcept (if det_get_N d = 1 then rbind (get_element d 1 1) opt_value
               else rbind (elimination d) (\<lambda>tmp.
                    for_each [1..<det_get_N d + 1]
                      (\<lambda>i result. rbind (rbind (get_element tmp i i) opt_value)
                                         (\<lambda>e. Inr (result * e)))
                      1))"

section \<open>matrix.hpp\<close>

text \<open>\<^verbatim>\<open>matrix\<close> derives from \<^verbatim>\<open>numerical_table\<close> and adds no member.\<close>

type_synonym 'a matrix = "'a numerical_table"

definition matrix_ctor :: "nat \<Rightarrow> nat \<Rightarrow> 'a::zero list \<Rightarrow> 'a matrix result" where
  "matrix_ctor M N data = numerical_table_ctor M N data"

text \<open>\<^verbatim>\<open>matrix::det()\<close>: absent unless square; else the rows are copied one by one.\<close>

definition matrix_det :: "'a::zero matrix \<Rightarrow> 'a det option result" where
  "matrix_det m =
     (if \<not> square_matrix m then Inr None
      else noexcept (
           rbind (det_ctor (get_M m) [0]) (\<lambda>result0.
           rbind (for_each [1..<get_M m + 1]
                    (\<lambda>i result. rbind (rbind (get_row m i) opt_value) (set_row result i))
                    result0)
                 (\<lambda>result. Inr (Some result)))))"

text \<open>
  \<^verbatim>\<open>operator*=(t)\<close>: absent for \<open>t = 0\<close>, else every row is replaced by its multiple;
  the result is the matrix after the update.
\<close>

definition matrix_times_assign :: "'a::field matrix \<Rightarrow> 'a \<Rightarrow> 'a matrix option result" where
  "matrix_times_assign m t =
     (if t = 0 then Inr None
      else rbind (for_each [1..<get_M m + 1]
                    (\<lambda>i m'. rbind (rbind (get_row m' i) opt_deref)
                                   (\<lambda>line. set_row m' i (seq_times line t)))
                    m)
                 (\<lambda>m'. Inr (Some m')))"

text \<open>\<^verbatim>\<open>operator*(t)\<close>: absent for \<open>t = 0\<close>; else \<^verbatim>\<open>(result *= t).value()\<close> on a copy.\<close>

definition matrix_times :: "'a::field matrix \<Rightarrow> 'a \<Rightarrow> 'a matrix option result" where
  "matrix_times m t =
     (if t = 0 then Inr None
      else noexcept (rbind (rbind (matrix_times_assign m t) opt_value)
                           (\<lambda>result. Inr (Some result))))"

text \<open>
  \<^verbatim>\<open>operator*(matrix)\<close>: absent unless the left columns equal the right rows; cell
  \<open>(i, j)\<close> is \<^verbatim>\<open>*dot(*get_row(i), *right.get_column(j))\<close>.
\<close>

definition matrix_mult :: "'a::field matrix \<Rightarrow> 'a matrix \<Rightarrow> 'a matrix option result" where
  "matrix_mult m right =
     (if get_N m \<noteq> get_M right then Inr None
      else rbind (matrix_ctor (get_M m) (get_N right) [0]) (\<lambda>result0.
           rbind (for_each [1..<get_M result0 + 1]
                    (\<lambda>i. for_each [1..<get_N result0 + 1]
                       (\<lambda>j result.
                          rbind (rbind (get_row m i) opt_deref) (\<lambda>row_i.
                          rbind (rbind (get_column right j) opt_deref) (\<lambda>column_j.
                          rbind (opt_deref (dot row_i column_j)) (\<lambda>v.
                          set_element result i j v)))))
                    result0)
                 (\<lambda>result. Inr (Some result))))"

text \<open>
  \<^verbatim>\<open>adjoint\<close>: absent unless square and of order above 1. One thread per cell
  \<open>(r, c)\<close> computes \<^verbatim>\<open>tdet.m_i_j(r, c).value().general_calculate()\<close> and stores it
  with \<^verbatim>\<open>result.set_element(r, c, ...)\<close>; the threads read the same determinant and
  write different cells, and all are joined before the return, so they are run
  here one after the other in the order they are started. An exception in a
  thread ends the process. Here and in \<open>inverse_matrix\<close> and \<open>calculate\<close> the
  element type is the type the determinant is evaluated in, as for
  \<^verbatim>\<open>matrix<double>\<close>: the conversions between \<open>T\<close> and \<^verbatim>\<open>double\<close> are the identity.
\<close>

definition adjoint_cell :: "'a::field det \<Rightarrow> nat \<Rightarrow> nat \<Rightarrow> 'a matrix \<Rightarrow> 'a matrix result" where
  "adjoint_cell tdet r c result =
     noexcept (rbind (m_i_j tdet r c) (\<lambda>ttdet.
               rbind (opt_value ttdet) (\<lambda>minor.
               rbind (general_calculate id minor) (\<lambda>v.
               set_element result r c v))))"

definition adjoint :: "'a::field matrix \<Rightarrow> 'a matrix option result" where
  "adjoint m =
     (if get_M m \<noteq> get_N m then Inr None
      else if get_M m = 1 \<or> get_N m = 1 then Inr None
      else rbind (matrix_ctor (get_M m) (get_N m) [0]) (\<lambda>result0.
           rbind (rbind (matrix_det m) opt_value) (\<lambda>tdet.
           rbind (for_each [1..<get_M m + 1]
                    (\<lambda>i. for_each [1..<get_N m + 1] (\<lambda>j. adjoint_cell tdet i j))
                    result0)
                 (\<lambda>result. Inr (Some result)))))"

text \<open>
  \<^verbatim>\<open>inverse\<close>: absent when \<^verbatim>\<open>det()\<close> is; else
  \<^verbatim>\<open>adjoint().value() * (1 / T(vdet->general_calculate()))\<close>.
\<close>

definition inverse_matrix :: "'a::field matrix \<Rightarrow> 'a matrix option result" where
  "inverse_matrix m =
     rbind (matrix_det m) (\<lambda>vdet.
       case vdet of
         None \<Rightarrow> Inr None
       | Some d \<Rightarrow>
           rbind (rbind (adjoint m) opt_value) (\<lambda>adjoint_matrix.
           rbind (general_calculate id d) (\<lambda>v.
           rbind (divide_T 1 v) (\<lambda>k.
           matrix_times adjoint_matrix k))))"

section \<open>linear_equations.hpp\<close>

record 'a linear_equations =
  le_data :: "'a numerical_table"
  le_x :: "'a list"

text \<open>
  The default constructor, \<^verbatim>\<open>noexcept\<close>, with the member initialiser
  \<^verbatim>\<open>_data{1, 0, {T(1), T(0)}}\<close>; \<^verbatim>\<open>_x\<close> starts empty.
\<close>

definition linear_equations_default :: "'a::{zero,one} linear_equations result" where
  "linear_equations_default =
     noexcept (rbind (numerical_table_ctor 1 0 [1, 0])
                     (\<lambda>t. Inr \<lparr>le_data = t, le_x = []\<rparr>))"

text \<open>The constructor \<^verbatim>\<open>linear_equations(m, n, data)\<close>, \<^verbatim>\<open>noexcept\<close>.\<close>

definition linear_equations_ctor :: "nat \<Rightarrow> nat \<Rightarrow> 'a::zero list \<Rightarrow> 'a linear_equations result" where
  "linear_equations_ctor m n data =
     noexcept (rbind (numerical_table_ctor m n data)
                     (\<lambda>t. Inr \<lparr>le_data = t, le_x = []\<rparr>))"

text \<open>
  \<^verbatim>\<open>calculate\<close> (Cramer's rule), \<^verbatim>\<open>noexcept\<close>. The first loop fills both
  determinants column by column; the second substitutes the constants for column
  \<open>i\<close>, restores column \<open>i - 1\<close>, and appends the quotient to \<^verbatim>\<open>_x\<close>.
\<close>

definition calculate_fill ::
  "'a::zero numerical_table \<Rightarrow> nat \<Rightarrow> 'a det \<times> 'a det \<Rightarrow> ('a det \<times> 'a det) result" where
  "calculate_fill data i dets =
     rbind (rbind (get_column data i) opt_value) (\<lambda>col.
     rbind (set_column (fst dets) i col) (\<lambda>coefficient_det.
     rbind (rbind (get_column data i) opt_value) (\<lambda>col'.
     rbind (set_column (snd dets) i col') (\<lambda>augmented_det.
     Inr (coefficient_det, augmented_det)))))"

definition calculate_unknown ::
  "'a::field numerical_table \<Rightarrow> 'a \<Rightarrow> nat \<Rightarrow> 'a det \<times> 'a list \<Rightarrow> ('a det \<times> 'a list) result" where
  "calculate_unknown data x i st =
     rbind (if i \<noteq> 1
            then rbind (rbind (get_column data (get_N data)) opt_deref) (\<lambda>constants.
                 rbind (set_column (fst st) i constants) (\<lambda>augmented_det.
                 rbind (rbind (get_column data (i - 1)) opt_deref) (\<lambda>previous.
                 set_column augmented_det (i - 1) previous)))
            else rbind (rbind (get_column data (get_N data)) opt_deref)
                       (set_column (fst st) i)) (\<lambda>augmented_det.
     rbind (general_calculate id augmented_det) (\<lambda>v.
     rbind (divide_T v x) (\<lambda>q.
     Inr (augmented_det, snd st @ [q]))))"

definition calculate :: "'a::field linear_equations \<Rightarrow> 'a linear_equations result" where
  "calculate s =
     (if get_M (le_data s) \<le> 1 then Inr s
      else noexcept (
        rbind (det_ctor (size_dec (get_N (le_data s))) [0]) (\<lambda>coefficient_det0.
        rbind (det_ctor (size_dec (get_N (le_data s))) [0]) (\<lambda>augmented_det0.
        rbind (for_each [1..<get_N (le_data s)] (calculate_fill (le_data s))
                 (coefficient_det0, augmented_det0)) (\<lambda>dets.
        rbind (general_calculate id (fst dets)) (\<lambda>x.
          if x = 0 then Inr (s\<lparr>le_x := []\<rparr>)
          else rbind (for_each [1..<get_N (le_data s)] (calculate_unknown (le_data s) x)
                        (snd dets, []))
                     (\<lambda>st. Inr (s\<lparr>le_x := snd st\<rparr>))))))))"

text \<open>
  \<^verbatim>\<open>calculate_inverse\<close>, \<^verbatim>\<open>noexcept\<close>: the coefficient matrix and the constants
  column are built, then
  \<^verbatim>\<open>x = (ceofficient.inverse().value() * constant).value()\<close> and
  \<^verbatim>\<open>_x = x.get_column(1).value()\<close>.
\<close>

definition calculate_inverse :: "'a::field linear_equations \<Rightarrow> 'a linear_equations result" where
  "calculate_inverse s =
     (if get_M (le_data s) \<le> 1 then Inr s
      else noexcept (
        rbind (matrix_ctor (get_M (le_data s)) (size_dec (get_N (le_data s))) [0]) (\<lambda>ceofficient0.
        rbind (rbind (get_column (le_data s) (get_N (le_data s))) opt_value) (\<lambda>constants.
        rbind (matrix_ctor (get_M (le_data s)) 1 constants) (\<lambda>constant.
        rbind (for_each [1..<get_N (le_data s)]
                 (\<lambda>i c. rbind (rbind (get_column (le_data s) i) opt_value) (set_column c i))
                 ceofficient0) (\<lambda>ceofficient.
        rbind (rbind (inverse_matrix ceofficient) opt_value) (\<lambda>inv.
        rbind (rbind (matrix_mult inv constant) opt_value) (\<lambda>x.
        rbind (rbind (get_column x 1) opt_value) (\<lambda>solution.
        Inr (s\<lparr>le_x := solution\<rparr>))))))))))"

text \<open>\<^verbatim>\<open>x_n(n)\<close>: absent when \<^verbatim>\<open>n >= _x.size()\<close>, else \<^verbatim>\<open>_x[n - 1]\<close>.\<close>

definition x_n :: "'a linear_equations \<Rightarrow> nat \<Rightarrow> 'a option result" where
  "x_n s n =
     (if n \<ge> length (le_x s) then Inr None
      else let idx = size_dec n
           in if idx < length (le_x s) then Inr (Some (le_x s ! idx))
              else Inl Undefined)"

section \<open>The Leibniz expansion, as the specification words it\<close>

text \<open>
  All permutations of a list, in lexicographic order when the list is ascending:
  first those that start with its first element, then those that start with its
  second, and so on.
\<close>

function permutations_lex :: "nat list \<Rightarrow> nat list list" where
  "permutations_lex [] = [[]]"
| "permutations_lex (x # xs) =
     concat (map (\<lambda>y. map ((#) y) (permutations_lex (remove1 y (x # xs)))) (x # xs))"
  by pat_completeness auto
termination
proof (relation "measure length")
  fix x :: nat and xs y
  assume "y \<in> set (x # xs)"
  then have "length (remove1 y (x # xs)) = length (x # xs) - 1"
    by (simp only: length_remove1 if_True)
  then show "(remove1 y (x # xs), x # xs) \<in> measure length"
    by simp
qed simp


text \<open>Element \<open>(i, j)\<close> of a determinant, 1-based, in the column-major store.\<close>

definition entry :: "'a det \<Rightarrow> nat \<Rightarrow> nat \<Rightarrow> 'a" where
  "entry d i j = nt_data d ! ((j - 1) * nt_M d + (i - 1))"

text \<open>
  The number of inversions: the pairs of positions \<open>(a, b)\<close>, \<open>a\<close> before \<open>b\<close>,
  with the element at \<open>b\<close> less than the element at \<open>a\<close>.
\<close>

definition inversions :: "nat list \<Rightarrow> nat" where
  "inversions p =
     length (filter (\<lambda>(a, b). a < b \<and> p ! b < p ! a)
               (List.product [0..<length p] [0..<length p]))"

text \<open>The elements \<open>(i, permutation[i])\<close> selected by a permutation, for \<open>i = 1 .. N\<close>.\<close>

definition selected :: "'a det \<Rightarrow> nat list \<Rightarrow> 'a list" where
  "selected d p = map (\<lambda>i. entry d i (p ! (i - 1))) [1..<det_get_N d + 1]"

text \<open>
  The signed product of a permutation: 0 as soon as a selected element is 0; else
  the sign, \<open>+1\<close> for an even and \<open>-1\<close> for an odd number of inversions, multiplied
  by the selected elements one after the other, in the arithmetic of \<open>'d\<close>.
\<close>

definition leibniz_term ::
  "('t::zero \<Rightarrow> 'd::{zero,one,uminus,times}) \<Rightarrow> 't det \<Rightarrow> nat list \<Rightarrow> 'd" where
  "leibniz_term to_double d p =
     (if 0 \<in> set (selected d p) then 0
      else foldl (*) (if even (inversions p) then 1 else - 1) (map to_double (selected d p)))"

text \<open>
  The value: the single element for order 1; else the signed products of all
  permutations, accumulated from 0 in lexicographic order of the permutations.
\<close>

definition leibniz ::
  "('t::zero \<Rightarrow> 'd::{zero,one,uminus,plus,times}) \<Rightarrow> 't det \<Rightarrow> 'd" where
  "leibniz to_double d =
     (if det_get_N d = 1 then to_double (entry d 1 1)
      else foldl (+) 0 (map (leibniz_term to_double d) (permutations_lex [1..<det_get_N d + 1])))"

section \<open>Evaluation rules\<close>

lemma rbind_simps [simp]:
  "rbind (Inl e) f = Inl e"
  "rbind (Inr x) f = f x"
  by (simp_all add: rbind_def)

lemma opt_simps [simp]:
  "opt_value None = Inl BadOptionalAccess"
  "opt_value (Some v) = Inr v"
  "opt_deref None = Inl Undefined"
  "opt_deref (Some v) = Inr v"
  by (simp_all add: opt_value_def opt_deref_def)

lemma noexcept_simps [simp]:
  "noexcept (Inr x) = Inr x"
  "noexcept (Inl (InvalidArgument msg)) = Inl Terminate"
  "noexcept (Inl BadOptionalAccess) = Inl Terminate"
  "noexcept (Inl DivisionByZero) = Inl DivisionByZero"
  "noexcept (Inl Undefined) = Inl Undefined"
  "noexcept (Inl Terminate) = Inl Terminate"
  by (simp_all add: noexcept_def)

lemmas table_defs =
  numerical_table_ctor_def resize_def get_element_def set_element_def
  get_row_def set_row_def get_column_def set_column_def swap_row_def
  size_dec_def size_mul_add_def SIZE_RANGE_def

lemma replicate_numeral: "replicate (numeral n) x = x # replicate (pred_numeral n) x"
  by (simp add: numeral_eq_Suc)

lemma list_update_numeral: "(x # xs)[numeral n := y] = x # xs[pred_numeral n := y]"
  by (simp add: numeral_eq_Suc)

lemmas det_defs =
  det_ctor_def matrix_ctor_def general_calculate_def gc_loop.simps gc_term_def
  elements_inverse_number_def inverse_number_def m_i_j_def algebraic_complement_minor_def
  elimination_calculate_def elimination_def elimination_step_def elimination_rows_def
  elimination_row_def
  seq_add_def seq_times_def divide_T_def matrix_det_def square_matrix_def adjoint_def
  adjoint_cell_def inverse_matrix_def matrix_times_def matrix_times_assign_def
  matrix_mult_def dot_def upt_rec replicate_numeral list_update_numeral

lemmas le_defs =
  linear_equations_ctor_def calculate_def calculate_fill_def calculate_unknown_def
  calculate_inverse_def x_n_def

section \<open>The table: element access and column update\<close>

text \<open>
  C8. A row or column beyond the upper bound gives an absent \<open>get_element\<close> and leaves
  the table as it is under \<open>set_element\<close>; index 0 passes the only check, and the
  decremented index wraps. On the 2-by-2 table with columns (1, 2) and (3, 4):
  \<open>get_element(0, 2)\<close> returns cell (2, 1), \<open>set_element(0, 2, 9)\<close> overwrites
  cell (2, 1), and \<open>get_element(0, 1)\<close> reads outside the backing store.
\<close>

theorem get_set_element_index_zero:
  "rbind (numerical_table_ctor 2 2 [1, 2, 3, 4 :: int]) (\<lambda>t. get_element t 0 2) = Inr (Some 2)
   \<and> rbind (numerical_table_ctor 2 2 [1, 2, 3, 4 :: int]) (\<lambda>t. set_element t 0 2 9)
       = numerical_table_ctor 2 2 [1, 9, 3, 4]
   \<and> rbind (numerical_table_ctor 2 2 [1, 2, 3, 4 :: int]) (\<lambda>t. get_element t 0 1) = Inl Undefined"
  by (simp add: table_defs)

lemma get_set_element_beyond_upper_bound:
  "row > get_M t \<or> column > get_N t \<Longrightarrow>
     get_element t row column = Inr None \<and> set_element t row column v = Inr t"
  by (simp add: get_element_def set_element_def)

text \<open>
  C9. \<open>set_column\<close> compares the column index with the number of rows: on the
  1-by-2 table (1, 2), column 2 exists (\<open>get_column\<close> returns it) and the sequence
  has the length of a column, yet \<open>set_column(2, [9])\<close> changes nothing.
\<close>

theorem set_column_checks_rows:
  "rbind (numerical_table_ctor 1 2 [1, 2 :: int]) (\<lambda>t. set_column t 2 [9])
     = numerical_table_ctor 1 2 [1, 2]
   \<and> rbind (numerical_table_ctor 1 2 [1, 2 :: int]) (\<lambda>t. get_column t 2) = Inr (Some [2])"
  by (simp add: table_defs)

section \<open>The determinant: elimination\<close>

text \<open>
  C2. \<open>elimination_calculate\<close> multiplies the diagonal left by \<open>elimination\<close> and
  keeps no account of the row swaps. For the order-2 determinant with rows (0, 1)
  and (1, 0) the rows are swapped once: \<open>elimination_calculate\<close> returns 1,
  \<open>general_calculate\<close> returns \<open>-1\<close>.
\<close>

theorem elimination_calculate_differs:
  "rbind (det_ctor 2 [0, 1, 1, 0 :: rat]) elimination_calculate = Inr 1
   \<and> rbind (det_ctor 2 [0, 1, 1, 0 :: rat]) (general_calculate id) = Inr (- 1)"
  by (simp add: det_defs table_defs)

text \<open>
  C5. With a zero pivot, \<open>elimination\<close> tests the entries \<open>(r1, r2)\<close> of the pivot
  row, to the right of the pivot, and swaps rows \<open>r1\<close> and \<open>r2\<close> at the first
  nonzero one. With rows (0, 0) and (1, 1), entry (2, 1) below the pivot is 1,
  yet nothing is swapped and the determinant is returned as it was. With rows
  (0, 0, 1), (1, 0, 0), (0, 1, 0), rows 1 and 3 are swapped although entry (3, 1)
  is 0 and entry (2, 1) is not.
\<close>

theorem elimination_scans_pivot_row:
  "rbind (det_ctor 2 [0, 1, 0, 1 :: rat]) (\<lambda>d. get_element d 2 1) = Inr (Some 1)
   \<and> rbind (det_ctor 2 [0, 1, 0, 1 :: rat]) elimination = det_ctor 2 [0, 1, 0, 1]
   \<and> rbind (det_ctor 3 [0, 1, 0, 0, 0, 1, 1, 0, 0 :: rat]) elimination
       = det_ctor 3 [0, 1, 0, 1, 0, 0, 0, 0, 1]"
  by (simp add: det_defs table_defs)

section \<open>The matrix: adjoint and inverse\<close>

text \<open>
  C3. \<open>adjoint\<close> evaluates \<open>m_i_j\<close>, the minor, not the cofactor: no sign is
  applied. For the matrix with rows (1, 2) and (3, 4) the result has rows (4, 3)
  and (2, 1); cell (1, 2) is 3, while the cofactor (1, 2) evaluates to \<open>-3\<close>.
\<close>

theorem adjoint_stores_minors:
  "rbind (matrix_ctor 2 2 [1, 3, 2, 4 :: rat]) adjoint
     = Inr (Some \<lparr>nt_M = 2, nt_N = 2, nt_data = [4, 2, 3, 1]\<rparr>)
   \<and> rbind (det_ctor 2 [1, 3, 2, 4 :: rat])
         (\<lambda>d. rbind (rbind (algebraic_complement_minor d 1 2) opt_value) (general_calculate id))
     = Inr (- 3)"
  by (simp add: det_defs table_defs)

text \<open>
  C4. \<open>inverse\<close> does not look at the value of the determinant before dividing by
  it. For the matrix with rows (1, 2) and (2, 4) the determinant is present and
  evaluates to 0, and \<open>inverse\<close> divides 1 by it instead of returning absent.
\<close>

theorem inverse_divides_by_zero_determinant:
  "rbind (matrix_ctor 2 2 [1, 2, 2, 4 :: rat])
         (\<lambda>m. rbind (rbind (matrix_det m) opt_value) (general_calculate id)) = Inr 0
   \<and> rbind (matrix_ctor 2 2 [1, 2, 2, 4 :: rat]) inverse_matrix = Inl DivisionByZero"
  by (simp add: det_defs table_defs)

lemma inverse_absent_when_not_square:
  "\<not> square_matrix m \<Longrightarrow> inverse_matrix m = Inr None"
  by (simp add: inverse_matrix_def matrix_det_def)

section \<open>The linear-equation system: construction and queries\<close>

text \<open>
  C10. Default construction of \<open>linear_equations\<close> builds its table with 1 row and
  0 columns; the table constructor throws the zero-dimension error, and since the
  default constructor is \<^verbatim>\<open>noexcept\<close> the process terminates: no object results.
\<close>

theorem linear_equations_default_terminates:
  "numerical_table_ctor 1 0 [1, 0 :: 'a::{zero,one}]
     = Inl (InvalidArgument ''numerical_table N == 0'')
   \<and> (linear_equations_default :: 'a linear_equations result) = Inl Terminate"
  by (simp add: linear_equations_default_def numerical_table_ctor_def)

text \<open>
  C6. \<open>calculate_inverse\<close> takes \<^verbatim>\<open>inverse().value()\<close> without a test. For 2
  equations in 1 unknown the coefficient matrix is 2-by-1, \<open>inverse\<close> is absent,
  \<^verbatim>\<open>value()\<close> throws and the \<^verbatim>\<open>noexcept\<close> function terminates the process. For
  the singular coefficients with rows (1, 2) and (2, 4), \<open>inverse\<close> divides by the
  zero determinant.
\<close>

theorem calculate_inverse_not_invertible:
  "rbind (linear_equations_ctor 2 2 [1, 2, 3, 4 :: rat]) calculate_inverse = Inl Terminate
   \<and> rbind (linear_equations_ctor 2 3 [1, 2, 2, 4, 1, 1 :: rat]) calculate_inverse
       = Inl DivisionByZero"
  by (simp add: le_defs det_defs table_defs)

text \<open>
  C7. \<open>x_n\<close> rejects every index \<open>n \<ge> size\<close>, so the last computed unknown is never
  returned; index 0 on a non-empty solution reads \<^verbatim>\<open>_x[SIZE_MAX]\<close>. On the system
  of the test program, \<open>calculate\<close> computes the three unknowns 5, 0, 3.
\<close>

theorem x_n_last_unknown_absent:
  "rbind (rbind (linear_equations_ctor 3 4 [1, 2, 3, - 1, - 1, 2, - 1, - 3, - 5, 2, 1, 0 :: rat])
                calculate) (\<lambda>s. Inr (le_x s)) = Inr [5, 0, 3]
   \<and> x_n \<lparr>le_data = t, le_x = [5, 0, 3 :: rat]\<rparr> 3 = Inr None
   \<and> x_n \<lparr>le_data = t, le_x = [5, 0, 3 :: rat]\<rparr> 2 = Inr (Some 0)
   \<and> x_n \<lparr>le_data = t, le_x = [5, 0, 3 :: rat]\<rparr> 0 = Inl Undefined"
  by (simp add: le_defs det_defs table_defs)

section \<open>\<open>next_permutation\<close> meets the contract of \<^verbatim>\<open>std::next_permutation\<close>\<close>

lemma ascending_least:
  "sorted xs \<Longrightarrow> mset zs = mset xs \<Longrightarrow> xs \<le> (zs :: nat list)"
proof (induction xs arbitrary: zs)
  case Nil
  then show ?case by simp
next
  case (Cons x xs)
  from Cons.prems obtain z zs' where zs: "zs = z # zs'" by (cases zs) auto
  from Cons.prems have "z \<in> set (x # xs)"
    unfolding zs by (metis list.set_intros(1) mset_eq_setD)
  with Cons.prems have le: "x \<le> z" by auto
  show ?case
  proof (cases "x = z")
    case True
    with Cons.prems zs have "mset zs' = mset xs" by simp
    with Cons.IH [of zs'] Cons.prems have "xs \<le> zs'" by simp
    with True zs show ?thesis by simp
  next
    case False
    with le zs show ?thesis by simp
  qed
qed

lemma descending_greatest:
  "sorted_wrt (\<ge>) xs \<Longrightarrow> mset zs = mset xs \<Longrightarrow> (zs :: nat list) \<le> xs"
proof (induction xs arbitrary: zs)
  case Nil
  then show ?case by simp
next
  case (Cons x xs)
  from Cons.prems obtain z zs' where zs: "zs = z # zs'" by (cases zs) auto
  from Cons.prems have "z \<in> set (x # xs)"
    unfolding zs by (metis list.set_intros(1) mset_eq_setD)
  with Cons.prems have le: "z \<le> x" by auto
  show ?case
  proof (cases "x = z")
    case True
    with Cons.prems zs have "mset zs' = mset xs" by simp
    with Cons.IH [of zs'] Cons.prems have "zs' \<le> xs" by simp
    with True zs show ?thesis by simp
  next
    case False
    with le zs show ?thesis by simp
  qed
qed

lemma next_permutation_False:
  "next_permutation xs = (ys, False) \<Longrightarrow> sorted_wrt (\<ge>) xs \<and> ys = rev xs"
proof (induction xs arbitrary: ys)
  case Nil
  then show ?case by simp
next
  case (Cons x xs)
  obtain ys' c where rec: "next_permutation xs = (ys', c)"
    by (cases "next_permutation xs")
  with Cons.prems have c: "c = False"
    by (cases c) auto
  with Cons.prems rec have dw: "dropWhile (\<lambda>y. \<not> x < y) ys' = []" and ys: "ys = ys' @ [x]"
    by (auto split: list.splits)
  from Cons.IH rec c have IH: "sorted_wrt (\<ge>) xs" "ys' = rev xs" by simp_all
  from dw IH have "\<forall>y \<in> set xs. y \<le> x" by (auto simp: not_less)
  with IH ys show ?case by simp
qed

lemma next_permutation_least:
  "next_permutation xs = (ys, True) \<Longrightarrow> mset zs = mset xs \<Longrightarrow> xs < zs \<Longrightarrow> ys \<le> zs"
proof (induction xs arbitrary: ys zs)
  case Nil
  then show ?case by simp
next
  case (Cons x xs)
  from Cons.prems obtain z zs' where zs: "zs = z # zs'" by (cases zs) auto
  obtain ys' c where rec: "next_permutation xs = (ys', c)"
    by (cases "next_permutation xs")
  show ?case
  proof (cases c)
    case True
    with Cons.prems rec have ys: "ys = x # ys'" by simp
    show ?thesis
    proof (cases "x = z")
      case same: True
      with Cons.prems zs have "mset zs' = mset xs" "xs < zs'" by simp_all
      with Cons.IH [of ys' zs'] rec True have "ys' \<le> zs'" by simp
      with same ys zs show ?thesis by simp
    next
      case False
      with Cons.prems zs ys show ?thesis by simp
    qed
  next
    case False
    with rec next_permutation_False [of xs ys']
    have desc: "sorted_wrt (\<ge>) xs" and ys': "ys' = rev xs" by simp_all
    from desc ys' have asc: "sorted ys'"
      by (simp add: sorted_wrt_rev)
    let ?P = "\<lambda>y. \<not> x < y"
    from Cons.prems rec False obtain g gs where dw: "dropWhile ?P ys' = g # gs"
      and ys: "ys = g # takeWhile ?P ys' @ x # gs"
      by (auto split: list.splits)
    have split: "ys' = takeWhile ?P ys' @ g # gs"
      using dw by (metis takeWhile_dropWhile_id)
    have xz: "x < z"
    proof (rule ccontr)
      assume "\<not> x < z"
      with Cons.prems zs have "x = z" "xs < zs'" "mset zs' = mset xs" by auto
      with descending_greatest [OF desc, of zs'] show False by simp
    qed
    have "z \<in> set (x # xs)"
      using Cons.prems unfolding zs by (metis list.set_intros(1) mset_eq_setD)
    with xz ys' have "z \<in> set ys'" by auto
    with split have "z \<in> set (takeWhile ?P ys') \<or> z \<in> set (g # gs)"
      by (metis Un_iff set_append)
    with xz have zin: "z \<in> set (g # gs)"
      by (auto dest: set_takeWhileD)
    from asc split have sorted_parts: "sorted (takeWhile ?P ys')" "sorted (g # gs)"
      by (metis sorted_append)+
    with zin have gz: "g \<le> z" by auto
    show ?thesis
    proof (cases "g = z")
      case True
      have xg: "x < g" using hd_dropWhile [of ?P ys'] dw by simp
      have low: "\<forall>y \<in> set (takeWhile ?P ys'). y \<le> x"
        by (auto dest: set_takeWhileD)
      from sorted_parts have high: "\<forall>y \<in> set gs. g \<le> y" by simp
      have "sorted (takeWhile ?P ys' @ x # gs)"
        unfolding sorted_append
      proof (intro conjI ballI)
        show "sorted (takeWhile ?P ys')" by (rule sorted_parts)
        from sorted_parts high xg show "sorted (x # gs)" by fastforce
        fix a b
        assume "a \<in> set (takeWhile ?P ys')" and "b \<in> set (x # gs)"
        with low high xg show "a \<le> b" by fastforce
      qed
      moreover have "mset zs' = mset (takeWhile ?P ys' @ x # gs)"
      proof -
        have "mset (x # xs) = mset (x # takeWhile ?P ys' @ g # gs)"
          using ys' split by (metis mset.simps(2) mset_rev)
        with Cons.prems zs True show ?thesis by simp
      qed
      ultimately have "takeWhile ?P ys' @ x # gs \<le> zs'"
        by (intro ascending_least) simp_all
      with True ys zs show ?thesis by simp
    next
      case False
      with gz ys zs show ?thesis by simp
    qed
  qed
qed

text \<open>
  The contract of the C++ standard: the range is permuted; with result \<open>True\<close> it
  becomes the least permutation greater than the old one; with result \<open>False\<close> the
  old one was the greatest permutation and the range becomes the sorted one.
\<close>

lemma next_permutation_contract:
  assumes "next_permutation xs = (ys, b)"
  shows "mset ys = mset xs"
    and "b \<Longrightarrow> xs < ys \<and> (\<forall>zs. mset zs = mset xs \<and> xs < zs \<longrightarrow> ys \<le> zs)"
    and "\<not> b \<Longrightarrow> ys = sort xs \<and> (\<forall>zs. mset zs = mset xs \<longrightarrow> zs \<le> xs)"
proof -
  show "mset ys = mset xs" using assms by (rule next_permutation_mset)
next
  assume b
  with assms show "xs < ys \<and> (\<forall>zs. mset zs = mset xs \<and> xs < zs \<longrightarrow> ys \<le> zs)"
    by (auto intro: next_permutation_greater next_permutation_least)
next
  assume "\<not> b"
  with assms next_permutation_False [of xs ys]
  have desc: "sorted_wrt (\<ge>) xs" and ys: "ys = rev xs" by simp_all
  from desc have "sorted (rev xs)"
    by (simp add: sorted_wrt_rev)
  then have "sort xs = rev xs"
    by (intro properties_for_sort) simp_all
  with ys desc show "ys = sort xs \<and> (\<forall>zs. mset zs = mset xs \<longrightarrow> zs \<le> xs)"
    by (auto intro: descending_greatest)
qed

section \<open>\<open>next_permutation\<close> walks through the permutations in lexicographic order\<close>

lemma next_permutation_descending:
  "sorted_wrt (\<ge>) xs \<Longrightarrow> next_permutation xs = (rev xs, False)"
proof (induction xs)
  case Nil
  then show ?case by simp
next
  case (Cons x xs)
  then have rec: "next_permutation xs = (rev xs, False)" by simp
  from Cons.prems have "\<forall>y \<in> set (rev xs). \<not> x < y" by auto
  then have "dropWhile (\<lambda>y. \<not> x < y) (rev xs) = []" by simp
  with rec show ?case by (simp del: dropWhile_eq_Nil_conv)
qed

lemma next_permutation_pivot:
  assumes "sorted_wrt (<) (A @ x # y # B)"
  shows "next_permutation (x # rev (A @ y # B)) = (y # A @ x # B, True)"
proof -
  from assms have "sorted_wrt (<) (A @ y # B)"
    by (auto simp: sorted_wrt_append)
  then have "sorted_wrt (\<ge>) (rev (A @ y # B))"
    unfolding sorted_wrt_rev by (rule sorted_wrt_mono_rel [rotated]) auto
  from next_permutation_descending [OF this]
  have rec: "next_permutation (rev (A @ y # B)) = (A @ y # B, False)" by simp
  from assms have A: "\<forall>a \<in> set A. \<not> x < a" and xy: "x < y"
    by (auto simp: sorted_wrt_append)
  from A xy have "dropWhile (\<lambda>z. \<not> x < z) (A @ y # B) = y # B"
    by (simp add: dropWhile_append2)
  moreover from A xy have "takeWhile (\<lambda>z. \<not> x < z) (A @ y # B) = A"
    by (simp add: takeWhile_append2)
  ultimately show ?thesis using rec by simp
qed


lemma next_permutation_Cons:
  "next_permutation p = (q, True) \<Longrightarrow> next_permutation (x # p) = (x # q, True)"
  by simp

lemma remove1_middle:
  assumes "sorted_wrt (<) (A @ c # C :: nat list)"
  shows "remove1 c (A @ c # C) = A @ C"
proof -
  from assms have "c \<notin> set A"
    by (fastforce simp: sorted_wrt_append)
  then show ?thesis by (simp add: remove1_append)
qed

lemma permutations_lex_blocks:
  assumes S: "sorted_wrt (<) S"
    and IH: "\<And>S'. length S' < length S \<Longrightarrow> sorted_wrt (<) S' \<Longrightarrow>
               permutations_lex S' \<noteq> [] \<and> hd (permutations_lex S') = S'
               \<and> last (permutations_lex S') = rev S'
               \<and> successively (\<lambda>p q. next_permutation p = (q, True)) (permutations_lex S')"
  shows "A @ C = S \<Longrightarrow> C \<noteq> [] \<Longrightarrow>
           concat (map (\<lambda>y. map ((#) y) (permutations_lex (remove1 y S))) C) \<noteq> []
         \<and> hd (concat (map (\<lambda>y. map ((#) y) (permutations_lex (remove1 y S))) C)) = hd C # A @ tl C
         \<and> last (concat (map (\<lambda>y. map ((#) y) (permutations_lex (remove1 y S))) C))
             = last C # rev (A @ butlast C)
         \<and> successively (\<lambda>p q. next_permutation p = (q, True))
             (concat (map (\<lambda>y. map ((#) y) (permutations_lex (remove1 y S))) C))"
proof (induction C arbitrary: A)
  case Nil
  then show ?case by simp
next
  case (Cons c C)
  let ?R = "\<lambda>p q. next_permutation p = (q, True)"
  let ?block = "\<lambda>y. map ((#) y) (permutations_lex (remove1 y S))"
  from Cons.prems have S_eq: "S = A @ c # C" by simp
  with S have rm: "remove1 c S = A @ C"
    by (simp add: remove1_middle)
  from S S_eq have "sorted_wrt (<) (A @ C)"
    by (auto simp: sorted_wrt_append)
  moreover from S_eq have "length (A @ C) < length S" by simp
  ultimately have sub: "permutations_lex (A @ C) \<noteq> []"
    "hd (permutations_lex (A @ C)) = A @ C"
    "last (permutations_lex (A @ C)) = rev (A @ C)"
    "successively ?R (permutations_lex (A @ C))"
    using IH [of "A @ C"] by simp_all
  have b_ne: "?block c \<noteq> []" and b_hd: "hd (?block c) = c # A @ C"
    and b_last: "last (?block c) = c # rev (A @ C)"
    using sub rm by (simp_all add: hd_map last_map)
  have b_succ: "successively ?R (?block c)"
    unfolding rm successively_map
    by (rule successively_mono [OF sub(4)]) simp
  show ?case
  proof (cases C)
    case Nil
    with b_ne b_hd b_last b_succ show ?thesis by simp
  next
    case (Cons c' C')
    from Cons.IH [of "A @ [c]"] S_eq Cons
    have rest: "concat (map ?block C) \<noteq> []"
      "hd (concat (map ?block C)) = c' # A @ c # C'"
      "last (concat (map ?block C)) = last C # rev (A @ c # butlast C)"
      "successively ?R (concat (map ?block C))"
      by simp_all
    from S S_eq Cons have "sorted_wrt (<) (A @ c # c' # C')" by simp
    from next_permutation_pivot [OF this]
    have "?R (last (?block c)) (hd (concat (map ?block C)))"
      using b_last rest(2) Cons by simp
    with b_ne b_hd b_last b_succ rest Cons show ?thesis
      by (simp add: successively_append_iff)
  qed
qed

lemma permutations_lex_chain:
  "sorted_wrt (<) S \<Longrightarrow>
     permutations_lex S \<noteq> [] \<and> hd (permutations_lex S) = S
     \<and> last (permutations_lex S) = rev S
     \<and> successively (\<lambda>p q. next_permutation p = (q, True)) (permutations_lex S)"
proof (induction "length S" arbitrary: S rule: less_induct)
  case less
  show ?case
  proof (cases S)
    case Nil
    then show ?thesis by simp
  next
    case (Cons s S')
    then have "S \<noteq> []" by simp
    from permutations_lex_blocks [OF less.prems less.hyps, of "[]" S] this
    have "concat (map (\<lambda>y. map ((#) y) (permutations_lex (remove1 y S))) S) \<noteq> []
         \<and> hd (concat (map (\<lambda>y. map ((#) y) (permutations_lex (remove1 y S))) S)) = hd S # tl S
         \<and> last (concat (map (\<lambda>y. map ((#) y) (permutations_lex (remove1 y S))) S))
             = last S # rev (butlast S)
         \<and> successively (\<lambda>p q. next_permutation p = (q, True))
             (concat (map (\<lambda>y. map ((#) y) (permutations_lex (remove1 y S))) S))"
      by simp
    moreover have "permutations_lex S = concat (map (\<lambda>y. map ((#) y) (permutations_lex (remove1 y S))) S)"
      unfolding Cons by (rule permutations_lex.simps)
    moreover have "last S # rev (butlast S) = rev S"
      using \<open>S \<noteq> []\<close> by (metis append_butlast_last_id rev.simps(2) rev_append rev_rev_ident rev_singleton_conv append_Cons append_Nil)
    moreover have "hd S # tl S = S" using \<open>S \<noteq> []\<close> by simp
    ultimately show ?thesis by simp
  qed
qed


section \<open>\<open>general_calculate\<close> is the Leibniz expansion\<close>

lemma get_element_in_range:
  assumes "table_ok t" and "1 \<le> r" and "r \<le> nt_M t" and "1 \<le> c" and "c \<le> nt_N t"
  shows "get_element t r c = Inr (Some (nt_data t ! ((c - 1) * nt_M t + (r - 1))))"
proof -
  have "(c - 1) * nt_M t + (r - 1) < (c - 1) * nt_M t + nt_M t"
    using assms by simp
  also have "(c - 1) * nt_M t + nt_M t = c * nt_M t"
  proof -
    from assms obtain c' where "c = Suc c'" by (cases c) auto
    then show ?thesis by simp
  qed
  also have "c * nt_M t \<le> nt_N t * nt_M t"
    using assms by simp
  finally have idx: "(c - 1) * nt_M t + (r - 1) < nt_M t * nt_N t"
    by (simp add: mult.commute)
  with assms have small: "(c - 1) * nt_M t + (r - 1) < SIZE_RANGE"
    by (simp add: table_ok_def)
  from assms have "r \<noteq> 0" "c \<noteq> 0" by auto
  with idx small assms show ?thesis
    by (simp add: get_element_def size_dec_def size_mul_add_def table_ok_def)
qed


lemma det_ctor_ok:
  assumes "0 < N" and "N * N < SIZE_RANGE"
  shows "\<exists>d. det_ctor N data = Inr d \<and> table_ok d \<and> square_matrix d"
  using assms
  by (simp add: det_ctor_def numerical_table_ctor_def resize_def size_mul_add_def
      table_ok_def square_matrix_def)

lemma gc_term_loop_eval:
  assumes ok: "table_ok d" and sq: "nt_N d = nt_M d" and len: "length p = nt_M d"
    and rng: "\<forall>x \<in> set p. 1 \<le> x \<and> x \<le> nt_M d"
  shows "\<forall>i \<in> set idxs. 1 \<le> i \<and> i \<le> nt_M d \<Longrightarrow>
         gc_term_loop to_double d p idxs acc =
           Inr (if 0 \<in> set (map (\<lambda>i. entry d i (p ! (i - 1))) idxs) then 0
                else foldl (*) acc (map to_double (map (\<lambda>i. entry d i (p ! (i - 1))) idxs)))"
proof (induction idxs arbitrary: acc)
  case Nil
  then show ?case by simp
next
  case (Cons i idxs)
  from Cons.prems have i: "1 \<le> i" "i \<le> nt_M d" by simp_all
  with len have pos: "i - 1 < length p" by simp
  then have "p ! (i - 1) \<in> set p" by simp
  with rng sq have "1 \<le> p ! (i - 1)" "p ! (i - 1) \<le> nt_N d" by auto
  from get_element_in_range [OF ok i this]
  have get: "get_element d i (p ! (i - 1)) = Inr (Some (entry d i (p ! (i - 1))))"
    by (simp add: entry_def)
  from Cons.prems have rest: "\<forall>i \<in> set idxs. 1 \<le> i \<and> i \<le> nt_M d" by simp
  have step: "gc_term_loop to_double d p (i # idxs) acc =
      (if entry d i (p ! (i - 1)) = 0 then Inr 0
       else gc_term_loop to_double d p idxs (acc * to_double (entry d i (p ! (i - 1)))))"
    using pos get by simp
  show ?case
    unfolding step Cons.IH [OF rest] by auto
qed

lemma gc_loop_chain:
  assumes terms: "\<forall>q \<in> set (p # rest). gc_term to_double d q = Inr (t q)"
    and chain: "successively (\<lambda>p q. next_permutation p = (q, True)) (p # rest)"
    and final: "snd (next_permutation (last (p # rest))) = False"
  shows "gc_loop to_double d p acc = Inr (foldl (+) acc (map t (p # rest)))"
  using assms
proof (induction rest arbitrary: p acc)
  case Nil
  obtain ys b where np: "next_permutation p = (ys, b)"
    by (cases "next_permutation p")
  with Nil have "b = False" and "gc_term to_double d p = Inr (t p)" by simp_all
  with np show ?case
    by (subst gc_loop.simps) simp
next
  case (Cons q rest)
  from Cons.prems have step: "next_permutation p = (q, True)"
    and here: "gc_term to_double d p = Inr (t p)"
    by simp_all
  have "gc_loop to_double d q (acc + t p) = Inr (foldl (+) (acc + t p) (map t (q # rest)))"
    using Cons.prems by (intro Cons.IH) simp_all
  with step here show ?case
    by (subst gc_loop.simps) simp
qed

lemma permutations_lex_mset:
  "q \<in> set (permutations_lex S) \<Longrightarrow> mset q = mset S"
proof (induction S arbitrary: q rule: permutations_lex.induct)
  case 1
  then show ?case by simp
next
  case (2 x xs)
  from "2.prems" obtain y z where y: "y \<in> set (x # xs)"
    and z: "z \<in> set (permutations_lex (remove1 y (x # xs)))" and q: "q = y # z"
    by (auto simp del: remove1.simps)
  from "2.IH" [OF y z] have "mset z = mset (x # xs) - {#y#}"
    by (simp del: remove1.simps)
  with q have "mset q = add_mset y (mset (x # xs) - {#y#})"
    by simp
  also from y have "y \<in># mset (x # xs)"
    by (simp only: set_mset_mset)
  then have "add_mset y (mset (x # xs) - {#y#}) = mset (x # xs)"
    by (rule insert_DiffM)
  finally show ?case .
qed


lemma foldl_count:
  "foldl (\<lambda>count f. if P f then count + 1 else count) c ys = c + length (filter P ys)"
  by (induction ys arbitrary: c) simp_all

lemma foldl_add:
  "foldl (\<lambda>count k. count + g k) c ks = c + sum_list (map g ks)"
  by (induction ks arbitrary: c) (simp_all add: add.assoc)

lemma inverse_number_card:
  assumes "k \<le> length xs"
  shows "inverse_number xs k = card {a. a < k \<and> xs ! k < xs ! a}"
proof -
  have "take k xs = take k (map ((!) xs) [0..<length xs])"
    by (simp add: map_nth)
  also have "\<dots> = map ((!) xs) [0..<k]"
    using assms by (simp add: take_map)
  finally have "inverse_number xs k = length (filter (\<lambda>a. xs ! k < xs ! a) [0..<k])"
    by (simp add: inverse_number_def foldl_count filter_map comp_def)
  also have "\<dots> = card {a. a < k \<and> xs ! k < xs ! a}"
  proof -
    have "{i. i < k \<and> xs ! k < xs ! ([0..<k] ! i)} = {a. a < k \<and> xs ! k < xs ! a}"
      by auto
    then show ?thesis by (simp add: length_filter_conv_card)
  qed
  finally show ?thesis .
qed

lemma elements_inverse_number_sum:
  "elements_inverse_number xs = (\<Sum>k = 1..<length xs. inverse_number xs k)"
  by (simp add: elements_inverse_number_def foldl_add interv_sum_list_conv_sum_set_nat)

lemma inversions_card:
  "inversions p = card {(a, b). a < b \<and> b < length p \<and> p ! b < p ! a}"
proof -
  have "distinct (List.product [0..<length p] [0..<length p])"
    by (simp add: distinct_product)
  then have "inversions p =
      card ({(a, b). a < b \<and> p ! b < p ! a} \<inter> set (List.product [0..<length p] [0..<length p]))"
    unfolding inversions_def by (subst distinct_length_filter) (simp_all add: case_prod_beta')
  also have "{(a, b). a < b \<and> p ! b < p ! a} \<inter> set (List.product [0..<length p] [0..<length p])
      = {(a, b). a < b \<and> b < length p \<and> p ! b < p ! a}"
    by auto
  finally show ?thesis .
qed

lemma elements_inverse_number_inversions:
  "elements_inverse_number p = inversions p"
proof -
  let ?B = "\<lambda>k. {a. a < k \<and> p ! k < p ! a}"
  have "elements_inverse_number p = (\<Sum>k = 1..<length p. card (?B k))"
    by (simp add: elements_inverse_number_sum inverse_number_card)
  also have "\<dots> = card (SIGMA k:{1..<length p}. ?B k)"
    by (subst card_SigmaI) simp_all
  also have "\<dots> = card (prod.swap ` (SIGMA k:{1..<length p}. ?B k))"
    by (subst card_image) simp_all
  also have "prod.swap ` (SIGMA k:{1..<length p}. ?B k)
      = {(a, b). a < b \<and> b < length p \<and> p ! b < p ! a}"
    by (auto simp: image_iff)
  finally show ?thesis by (simp add: inversions_card)
qed


lemma gc_term_eval:
  assumes ok: "table_ok d" and sq: "nt_N d = nt_M d"
    and perm: "mset p = mset [1..<nt_M d + 1]"
  shows "gc_term to_double d p = Inr (leibniz_term to_double d p)"
proof -
  from perm have len: "length p = nt_M d"
    using mset_eq_length by fastforce
  from perm have "set p = set [1..<nt_M d + 1]"
    by (rule mset_eq_setD)
  then have rng: "\<forall>x \<in> set p. 1 \<le> x \<and> x \<le> nt_M d" by auto
  have idxs: "\<forall>i \<in> set [1..<nt_M d + 1]. 1 \<le> i \<and> i \<le> nt_M d" by auto
  have sign: "(elements_inverse_number p mod 2 = 0) = even (inversions p)"
    by (simp add: elements_inverse_number_inversions even_iff_mod_2_eq_zero)
  show ?thesis
    unfolding gc_term_def Let_def gc_term_loop_eval [OF ok sq len rng idxs]
      leibniz_term_def selected_def sign
    by simp
qed

lemma permutations_lex_sorted:
  assumes "sorted_wrt (<) S"
  shows "sorted_wrt (<) (permutations_lex S)"
proof -
  from permutations_lex_chain [OF assms]
  have "successively (\<lambda>p q. next_permutation p = (q, True)) (permutations_lex S)" by simp
  then have "successively (<) (permutations_lex S)"
    by (rule successively_mono) (rule next_permutation_greater)
  then show ?thesis
    by (simp add: successively_conv_sorted_wrt)
qed

lemma permutations_lex_complete:
  "mset q = mset S \<Longrightarrow> q \<in> set (permutations_lex S)"
proof (induction S arbitrary: q rule: permutations_lex.induct)
  case 1
  then show ?case by simp
next
  case (2 x xs)
  from "2.prems" obtain y z where q: "q = y # z" by (cases q) auto
  with "2.prems" have y: "y \<in> set (x # xs)"
    by (metis list.set_intros(1) mset_eq_setD)
  from q "2.prems" have "mset z = mset (x # xs) - {#y#}"
    by (metis add_mset_remove_trivial mset.simps(2))
  then have "mset z = mset (remove1 y (x # xs))"
    by (simp del: remove1.simps)
  from "2.IH" [OF y this] have "z \<in> set (permutations_lex (remove1 y (x # xs)))" .
  with y q show ?case
    by (auto simp del: remove1.simps)
qed

text \<open>
  \<open>permutations_lex\<close> of an ascending list lists every permutation of it
  (\<open>permutations_lex_mset\<close>, \<open>permutations_lex_complete\<close>) in strictly increasing
  lexicographic order (\<open>permutations_lex_sorted\<close>).
\<close>

text \<open>
  C1. For every square determinant, that is a table with the data-model invariant
  and as many rows as columns, over any element type and any arithmetic of the
  accumulator type, \<open>general_calculate\<close> returns, without a fault, the Leibniz
  value: the single element for order 1, and else the sum, accumulated over all
  permutations of \<open>1, ..., N\<close> in lexicographic order, of the signed products of
  the selected elements \<open>(i, permutation[i])\<close>, the sign being \<open>+1\<close> for an even and
  \<open>-1\<close> for an odd number of inversions, and a term being 0 as soon as a selected
  element is 0.
\<close>

theorem general_calculate_leibniz:
  assumes ok: "table_ok d" and sq: "square_matrix d"
  shows "general_calculate to_double d = Inr (leibniz to_double d)"
proof (cases "det_get_N d = 1")
  case True
  with ok sq have "get_element d 1 1 = Inr (Some (nt_data d ! 0))"
    using get_element_in_range [of d 1 1] by (simp add: square_matrix_def)
  with True show ?thesis
    by (simp add: general_calculate_def leibniz_def entry_def)
next
  case False
  let ?S = "[1..<det_get_N d + 1]"
  from sq have sq': "nt_N d = nt_M d" by (simp add: square_matrix_def)
  have sorted: "sorted_wrt (<) ?S" by (rule sorted_wrt_upt)
  from permutations_lex_chain [OF sorted]
  have ne: "permutations_lex ?S \<noteq> []" and hd: "hd (permutations_lex ?S) = ?S"
    and last: "last (permutations_lex ?S) = rev ?S"
    and chain: "successively (\<lambda>p q. next_permutation p = (q, True)) (permutations_lex ?S)"
    by simp_all
  from ne hd have split: "permutations_lex ?S = ?S # tl (permutations_lex ?S)"
    by (metis list.collapse)
  have terms: "\<forall>q \<in> set (?S # tl (permutations_lex ?S)).
      gc_term to_double d q = Inr (leibniz_term to_double d q)"
    unfolding split [symmetric]
    by (auto intro!: gc_term_eval [OF ok sq'] dest: permutations_lex_mset)
  have "sorted_wrt (\<ge>) (rev ?S)"
    unfolding sorted_wrt_rev by (rule sorted_wrt_mono_rel [OF _ sorted]) simp
  from next_permutation_descending [OF this]
  have final: "snd (next_permutation (last (?S # tl (permutations_lex ?S)))) = False"
    unfolding split [symmetric] last by simp
  from chain have chain': "successively (\<lambda>p q. next_permutation p = (q, True))
      (?S # tl (permutations_lex ?S))"
    unfolding split [symmetric] .
  from gc_loop_chain [OF terms chain' final, of 0] False show ?thesis
    unfolding split [symmetric] by (simp add: general_calculate_def leibniz_def)
qed

theorem general_calculate_leibniz_witness:
  "table_ok \<lparr>nt_M = 2, nt_N = 2, nt_data = [3, 2, - 2, 1 :: int]\<rparr>
   \<and> square_matrix \<lparr>nt_M = 2, nt_N = 2, nt_data = [3, 2, - 2, 1 :: int]\<rparr>
   \<and> general_calculate rat_of_int \<lparr>nt_M = 2, nt_N = 2, nt_data = [3, 2, - 2, 1 :: int]\<rparr>
       = Inr 7"
proof -
  let ?d = "\<lparr>nt_M = 2, nt_N = 2, nt_data = [3, 2, - 2, 1 :: int]\<rparr>"
  have ok: "table_ok ?d" by (simp add: table_ok_def SIZE_RANGE_def)
  have sq: "square_matrix ?d" by (simp add: square_matrix_def)
  have "leibniz rat_of_int ?d = 7"
    by (simp add: leibniz_def leibniz_term_def selected_def entry_def inversions_def upt_rec)
  with general_calculate_leibniz [OF ok sq, of rat_of_int] ok sq show ?thesis by simp
qed

text \<open>
  The order of the operations, on the order-2 determinant with rows \<open>(a, b)\<close> and
  \<open>(c, e)\<close>: nothing but the definitions is used, so the sum and the products are
  exactly these, whatever the arithmetic of the accumulator type does.
\<close>

lemma general_calculate_order_2:
  "general_calculate to_double \<lparr>nt_M = 2, nt_N = 2, nt_data = [a, c, b, e]\<rparr> =
     Inr (0 + (if a = 0 \<or> e = 0 then 0 else 1 * to_double a * to_double e)
            + (if b = 0 \<or> c = 0 then 0 else - 1 * to_double b * to_double c))"
  by (simp add: det_defs table_defs)

end
